theory Spec2Isabelle
  imports Complex_Main "HOL-Library.FSet" "HOL-Library.List_Lexorder" "HOL-Library.Char_ord"
begin

section \<open>The chaos monkey script\<close>

text \<open>
  The script \<^verbatim>\<open>integration_test/scripts/chaos_monkey.py\<close> repeatedly stops and starts
  docker-compose services at random.  Its function \<^verbatim>\<open>main\<close> is an endless loop over two
  local variables, \<^verbatim>\<open>stopped_services\<close> (a Python set) and \<^verbatim>\<open>print_ps\<close> (a flag).
  Everything else the loop does is an effect: it draws random numbers, prints lines, runs
  \<^verbatim>\<open>docker-compose\<close> through \<^verbatim>\<open>subprocess.call\<close> and sleeps.

  The model passes the state explicitly.  What the loop reads from outside (the random
  generator, the iteration order of a Python set, the exit status of each external
  command) is a fixed record of oracles, the \<open>world\<close>; what it writes (printed lines,
  external commands, sleeps) is appended to the \<open>events\<close> field of the state.
  Python sets of strings are finite sets of strings; Python floats are modelled by the
  real numbers they denote.
\<close>

subsection \<open>Module constants\<close>

text \<open>\<^verbatim>\<open>shlex.split('docker-compose -f docker-compose-base.yml -f docker-compose-regtest.yml')\<close>\<close>

definition DOCKER_BASE_COMMAND :: "string list" where
  "DOCKER_BASE_COMMAND =
     [''docker-compose'', ''-f'', ''docker-compose-base.yml'', ''-f'', ''docker-compose-regtest.yml'']"

definition ALL_SERVICES :: "string fset" where
  "ALL_SERVICES = {|''node1'', ''node2'', ''node3''|}"

subsection \<open>Parameters, oracles, state\<close>

text \<open>The four keyword parameters of \<^verbatim>\<open>main\<close>.\<close>

record config =
  services :: "string fset"
  stopping_chance :: real
  starting_chance :: real
  sleep_time :: real

text \<open>
  The oracles.  The random generator is one sequence of draws, consumed one position per
  call: \<open>rand_float w i\<close> is what \<^verbatim>\<open>random.random()\<close> returns when it is the \<open>i\<close>-th call
  to the generator, \<open>rand_below w i\<close> is the raw value from which \<^verbatim>\<open>random.choice\<close>
  takes its index (reduced modulo the length of the sequence) when it is the \<open>i\<close>-th call.
  \<open>set_order w S\<close> is the list that \<^verbatim>\<open>list(S)\<close> builds from the set \<open>S\<close>, and
  \<open>exit_status w k\<close> is the exit status of the \<open>k\<close>-th external command.
\<close>

record world =
  rand_float :: "nat \<Rightarrow> real"
  rand_below :: "nat \<Rightarrow> nat"
  set_order :: "string fset \<Rightarrow> string list"
  exit_status :: "nat \<Rightarrow> int"

text \<open>What the script writes: the lines it prints, the commands it runs, its sleeps.\<close>

datatype event =
    Print_Starting string
  | Print_Stopping string
  | Print_docker_ps_status
  | Print_Not_doing_anything real
  | Subprocess_call "string list"
  | Time_sleep real

record state =
  stopped_services :: "string fset"
  print_ps :: bool
  rng_pos :: nat
  n_calls :: nat
  events :: "event list"

text \<open>
  The exceptions that the library calls of the loop body can raise on their arguments:
  \<^verbatim>\<open>random.choice\<close> on an empty sequence (IndexError), \<^verbatim>\<open>set.remove\<close> of an element that
  is not in the set (KeyError), \<^verbatim>\<open>time.sleep\<close> of a negative number (ValueError).  None of
  them is caught inside \<^verbatim>\<open>main\<close>, so a raise ends the loop; the result keeps the state
  at the moment of the raise.
\<close>

datatype error = IndexError | KeyError | ValueError

type_synonym 'a result = "(error \<times> state) + 'a"

subsection \<open>The library calls\<close>

text \<open>\<^verbatim>\<open>random.random()\<close>: the next draw; the generator advances.\<close>

definition random_random :: "world \<Rightarrow> state \<Rightarrow> real \<times> state" where
  "random_random w s = (rand_float w (rng_pos s), s\<lparr>rng_pos := Suc (rng_pos s)\<rparr>)"

text \<open>\<^verbatim>\<open>random.choice(seq)\<close>: IndexError on an empty sequence, else \<^verbatim>\<open>seq[randbelow(len(seq))]\<close>.\<close>

definition random_choice :: "world \<Rightarrow> string list \<Rightarrow> state \<Rightarrow> (string \<times> state) result" where
  "random_choice w seq s =
     (if seq = [] then Inl (IndexError, s)
      else Inr (seq ! (rand_below w (rng_pos s) mod length seq), s\<lparr>rng_pos := Suc (rng_pos s)\<rparr>))"

text \<open>\<^verbatim>\<open>stopped_services.remove(service)\<close>: KeyError when the element is absent.\<close>

definition set_remove :: "string \<Rightarrow> state \<Rightarrow> state result" where
  "set_remove service s =
     (if service |\<in>| stopped_services s
      then Inr (s\<lparr>stopped_services := stopped_services s |-| {|service|}\<rparr>)
      else Inl (KeyError, s))"

text \<open>\<^verbatim>\<open>stopped_services.add(service)\<close>\<close>

definition set_add :: "string \<Rightarrow> state \<Rightarrow> state" where
  "set_add service s = s\<lparr>stopped_services := finsert service (stopped_services s)\<rparr>"

definition emit :: "event \<Rightarrow> state \<Rightarrow> state" where
  "emit e s = s\<lparr>events := events s @ [e]\<rparr>"

text \<open>
  \<^verbatim>\<open>subprocess.call(argv, cwd=ROOT_DIR)\<close> runs the command, waits for it and returns its
  exit status.
\<close>

definition subprocess_call :: "world \<Rightarrow> string list \<Rightarrow> state \<Rightarrow> int \<times> state" where
  "subprocess_call w argv s =
     (exit_status w (n_calls s),
      emit (Subprocess_call argv) (s\<lparr>n_calls := Suc (n_calls s)\<rparr>))"

text \<open>\<^verbatim>\<open>time.sleep(secs)\<close>: ValueError when \<open>secs\<close> is negative.\<close>

definition time_sleep :: "real \<Rightarrow> state \<Rightarrow> state result" where
  "time_sleep secs s = (if secs < 0 then Inl (ValueError, s) else Inr (emit (Time_sleep secs) s))"

subsection \<open>The loop of \<^verbatim>\<open>main\<close>\<close>

text \<open>Line 25: \<^verbatim>\<open>available_services = services - stopped_services\<close>.\<close>

definition available_services :: "config \<Rightarrow> state \<Rightarrow> string fset" where
  "available_services c s = services c |-| stopped_services s"

text \<open>Lines 27 to 34, the body of the \<^verbatim>\<open>if\<close>.\<close>

definition start_service :: "world \<Rightarrow> state \<Rightarrow> state result" where
  "start_service w s =
     (case random_choice w (set_order w (stopped_services s)) s of
        Inl x \<Rightarrow> Inl x
      | Inr (service, s1) \<Rightarrow>
          (case set_remove service s1 of
             Inl x \<Rightarrow> Inl x
           | Inr s2 \<Rightarrow>
               let s3 = emit (Print_Starting service) s2;
                   (rc, s4) = subprocess_call w (DOCKER_BASE_COMMAND @ [''start'', service]) s3
               in Inr (s4\<lparr>print_ps := True\<rparr>)))"

text \<open>Lines 36 to 43, the body of the \<^verbatim>\<open>elif\<close>.\<close>

definition stop_service :: "world \<Rightarrow> string fset \<Rightarrow> state \<Rightarrow> state result" where
  "stop_service w available s =
     (case random_choice w (set_order w available) s of
        Inl x \<Rightarrow> Inl x
      | Inr (service, s1) \<Rightarrow>
          let s2 = set_add service s1;
              s3 = emit (Print_Stopping service) s2;
              (rc, s4) = subprocess_call w (DOCKER_BASE_COMMAND @ [''stop'', service]) s3
          in Inr (s4\<lparr>print_ps := True\<rparr>))"

text \<open>Lines 44 to 52.\<close>

definition report :: "config \<Rightarrow> world \<Rightarrow> state \<Rightarrow> state" where
  "report c w s =
     (if print_ps s then
        let s1 = emit Print_docker_ps_status s;
            (rc, s2) = subprocess_call w (DOCKER_BASE_COMMAND @ [''ps'']) s1
        in s2\<lparr>print_ps := False\<rparr>
      else emit (Print_Not_doing_anything (sleep_time c)) s)"

text \<open>
  One pass through the body of \<^verbatim>\<open>while True\<close> (lines 25 to 53).  Python's \<^verbatim>\<open>and\<close> evaluates
  its right operand only when the left one is true, so \<^verbatim>\<open>random.random()\<close> is called only
  for a non-empty set, and the \<^verbatim>\<open>elif\<close> condition is evaluated only when the \<^verbatim>\<open>if\<close>
  condition is false.
\<close>

definition iteration :: "config \<Rightarrow> world \<Rightarrow> state \<Rightarrow> state result" where
  "iteration c w s =
     (let available = available_services c s;
          (starting, s1) =
            (if stopped_services s \<noteq> {||}
             then let (r, s') = random_random w s in (r < starting_chance c, s')
             else (False, s))
      in case
           (if starting then start_service w s1
            else
              let (stopping, s2) =
                    (if available \<noteq> {||}
                     then let (r, s') = random_random w s1 in (r < stopping_chance c, s')
                     else (False, s1))
              in if stopping then stop_service w available s2 else Inr s2)
         of Inl x \<Rightarrow> Inl x
          | Inr s3 \<Rightarrow> time_sleep (sleep_time c) (report c w s3))"

text \<open>Lines 22 and 23.\<close>

definition initial_state :: state where
  "initial_state =
     \<lparr>stopped_services = {||}, print_ps = True, rng_pos = 0, n_calls = 0, events = []\<rparr>"

text \<open>
  \<^verbatim>\<open>while True\<close> never leaves the loop by itself.  \<open>main_loop c w n s\<close> runs the first \<open>n\<close>
  passes from the state \<open>s\<close>: it is the state with which pass \<open>n + 1\<close> begins, or the
  exception that ended the loop before.
\<close>

fun main_loop :: "config \<Rightarrow> world \<Rightarrow> nat \<Rightarrow> state \<Rightarrow> state result" where
  "main_loop c w 0 s = Inr s"
| "main_loop c w (Suc n) s =
     (case iteration c w s of Inl x \<Rightarrow> Inl x | Inr s' \<Rightarrow> main_loop c w n s')"

definition main :: "config \<Rightarrow> world \<Rightarrow> nat \<Rightarrow> state result" where
  "main c w n = main_loop c w n initial_state"

text \<open>The state in which a run is: at the end of its last pass, or at the raise.\<close>

fun state_of :: "state result \<Rightarrow> state" where
  "state_of (Inl (e, s)) = s"
| "state_of (Inr s) = s"

subsection \<open>The command line\<close>

text \<open>
  The \<^verbatim>\<open>--services\<close> option is converted by
  \<^verbatim>\<open>lambda s: set(x.strip() for x in s.split(','))\<close>.  Characters are 8-bit code points;
  among them Python's \<^verbatim>\<open>str.isspace\<close> holds of the code points 9 to 13, 28 to 32, 133
  and 160.
\<close>

definition isspace :: "char \<Rightarrow> bool" where
  "isspace ch = ((of_char ch :: nat) \<in> {9, 10, 11, 12, 13, 28, 29, 30, 31, 32, 133, 160})"

text \<open>\<^verbatim>\<open>x.strip()\<close>: without its leading and trailing whitespace.\<close>

definition str_strip :: "string \<Rightarrow> string" where
  "str_strip x = rev (dropWhile isspace (rev (dropWhile isspace x)))"

text \<open>\<^verbatim>\<open>s.split(sep)\<close> for a one-character separator: the pieces between the separators.\<close>

fun str_split :: "char \<Rightarrow> string \<Rightarrow> string list" where
  "str_split sep [] = [[]]"
| "str_split sep (x # xs) =
     (let ps = str_split sep xs
      in if x = sep then [] # ps else (x # hd ps) # tl ps)"

definition services_type :: "string \<Rightarrow> string fset" where
  "services_type s = fset_of_list (map str_strip (str_split (CHR '','') s))"

text \<open>
  What the command line holds for each of the four options: \<open>None\<close> when the option is
  absent, else its argument string.
\<close>

record command_line =
  opt_services :: "string option"
  opt_stopping_chance :: "string option"
  opt_starting_chance :: "string option"
  opt_sleep_time :: "string option"

text \<open>
  Lines 58 to 67.  An absent option has its \<^verbatim>\<open>default\<close>; a present one is converted by its
  \<^verbatim>\<open>type\<close>.  The conversion \<^verbatim>\<open>float\<close> of Python is a parameter: \<open>float v\<close> is \<open>None\<close>
  where Python raises ValueError, on which the parser reports the error and exits.
  The decimal literals \<^verbatim>\<open>0.1\<close> and \<^verbatim>\<open>0.3\<close> are read as the rationals they spell.
\<close>

definition parse_args :: "(string \<Rightarrow> real option) \<Rightarrow> command_line \<Rightarrow> config option" where
  "parse_args float cl =
     (case (case opt_stopping_chance cl of None \<Rightarrow> Some (1 / 10) | Some v \<Rightarrow> float v) of
        None \<Rightarrow> None
      | Some stopping \<Rightarrow>
     (case (case opt_starting_chance cl of None \<Rightarrow> Some (3 / 10) | Some v \<Rightarrow> float v) of
        None \<Rightarrow> None
      | Some starting \<Rightarrow>
     (case (case opt_sleep_time cl of None \<Rightarrow> Some 5 | Some v \<Rightarrow> float v) of
        None \<Rightarrow> None
      | Some sleep \<Rightarrow>
          Some \<lparr>services =
                  (case opt_services cl of None \<Rightarrow> ALL_SERVICES | Some v \<Rightarrow> services_type v),
                stopping_chance = stopping, starting_chance = starting, sleep_time = sleep\<rparr>)))"

text \<open>Lines 67 to 72: \<^verbatim>\<open>main(**vars(args))\<close> with the parsed arguments.\<close>

definition script ::
  "(string \<Rightarrow> real option) \<Rightarrow> command_line \<Rightarrow> world \<Rightarrow> nat \<Rightarrow> state result option" where
  "script float cl w n = map_option (\<lambda>c. main c w n) (parse_args float cl)"

subsection \<open>Vocabulary of the properties\<close>

text \<open>
  Two facts about Python that the oracles have to respect: \<^verbatim>\<open>list(S)\<close> lists the elements
  of \<open>S\<close>, and \<^verbatim>\<open>random.random()\<close> returns a number in the interval from 0 (included) to
  1 (excluded).
\<close>

definition lists_sets :: "world \<Rightarrow> bool" where
  "lists_sets w = (\<forall>S. set (set_order w S) = fset S)"

definition unit_draws :: "world \<Rightarrow> bool" where
  "unit_draws w = (\<forall>i. 0 \<le> rand_float w i \<and> rand_float w i < 1)"

text \<open>The external commands that start and stop a service, and how many a run has issued.\<close>

fun is_start :: "event \<Rightarrow> bool" where
  "is_start (Subprocess_call argv) =
     (argv \<noteq> [] \<and> butlast argv = DOCKER_BASE_COMMAND @ [''start''])"
| "is_start _ = False"

fun is_stop :: "event \<Rightarrow> bool" where
  "is_stop (Subprocess_call argv) =
     (argv \<noteq> [] \<and> butlast argv = DOCKER_BASE_COMMAND @ [''stop''])"
| "is_stop _ = False"

definition starts :: "state \<Rightarrow> nat" where
  "starts s = length (filter is_start (events s))"

definition stops :: "state \<Rightarrow> nat" where
  "stops s = length (filter is_stop (events s))"

fun is_sleeping_message :: "event \<Rightarrow> bool" where
  "is_sleeping_message (Print_Not_doing_anything t) = True"
| "is_sleeping_message _ = False"

text \<open>The services that are in exactly one of two sets.\<close>

definition changed :: "string fset \<Rightarrow> string fset \<Rightarrow> string fset" where
  "changed A B = (A |-| B) |\<union>| (B |-| A)"

text \<open>
  The element that \<^verbatim>\<open>random.choice(list(S))\<close> returns when it is call \<open>i\<close> to the generator,
  and the position in the generator at which the \<^verbatim>\<open>elif\<close> condition draws.
\<close>

definition pick :: "world \<Rightarrow> string fset \<Rightarrow> nat \<Rightarrow> string" where
  "pick w S i = set_order w S ! (rand_below w i mod length (set_order w S))"

definition stop_draw_pos :: "state \<Rightarrow> nat" where
  "stop_draw_pos s = (if stopped_services s = {||} then rng_pos s else Suc (rng_pos s))"

text \<open>
  A world for examples: every draw of \<^verbatim>\<open>random.random()\<close> is one half, every choice takes
  the first element, sets are listed in sorted order, every command exits with status 0.
\<close>

definition example_world :: world where
  "example_world =
     \<lparr>rand_float = (\<lambda>i. 1 / 2), rand_below = (\<lambda>i. 0), set_order = sorted_list_of_fset,
      exit_status = (\<lambda>k. 0)\<rparr>"

text \<open>
  A configuration for examples: two services, both chances 1, no sleep.
\<close>

definition example_config :: config where
  "example_config =
     \<lparr>services = {|''node1'', ''node2''|}, stopping_chance = 1, starting_chance = 1,
      sleep_time = 0\<rparr>"

text \<open>The configuration of the example with the single service node1.\<close>

definition node1_config :: config where
  "node1_config =
     \<lparr>services = {|''node1''|}, stopping_chance = 1, starting_chance = 0, sleep_time = 0\<rparr>"

text \<open>\<^verbatim>\<open>sep.join(pieces)\<close>, to say what splitting is.\<close>

fun str_join :: "char \<Rightarrow> string list \<Rightarrow> string" where
  "str_join sep [] = []"
| "str_join sep [p] = p"
| "str_join sep (p # q # ps) = p @ sep # str_join sep (q # ps)"

text \<open>The command line without any option.\<close>

definition no_options :: command_line where
  "no_options =
     \<lparr>opt_services = None, opt_stopping_chance = None, opt_starting_chance = None,
      opt_sleep_time = None\<rparr>"

section \<open>Properties\<close>

subsection \<open>One pass of the loop\<close>

text \<open>
  When \<^verbatim>\<open>list\<close> lists sets, a choice from a non-empty set is an element of it, so neither
  IndexError nor KeyError is raised, and a pass takes one of three paths: it starts a
  service, it stops one, or it does neither.  Each ends in \<^verbatim>\<open>time.sleep\<close>.
\<close>

lemma order_nonempty: "lists_sets w \<Longrightarrow> S \<noteq> {||} \<Longrightarrow> set_order w S \<noteq> []"
proof
  assume a: "lists_sets w" and b: "S \<noteq> {||}" and c: "set_order w S = []"
  have "set (set_order w S) = fset S" using a by (simp add: lists_sets_def)
  with c have "fset S = {}" by simp
  with b show False by (simp add: fset_cong[symmetric])
qed

lemma pick_in: "lists_sets w \<Longrightarrow> S \<noteq> {||} \<Longrightarrow> pick w S i |\<in>| S"
proof -
  assume a: "lists_sets w" and b: "S \<noteq> {||}"
  have "set (set_order w S) = fset S" using a by (simp add: lists_sets_def)
  moreover have "set_order w S \<noteq> []" using a b by (rule order_nonempty)
  ultimately show ?thesis
    unfolding pick_def by (metis length_greater_0_conv mod_less_divisor nth_mem)
qed

lemma start_service_eq:
  assumes "lists_sets w" "stopped_services s \<noteq> {||}"
  shows "start_service w s = Inr
     \<lparr>stopped_services = stopped_services s |-| {|pick w (stopped_services s) (rng_pos s)|},
      print_ps = True, rng_pos = Suc (rng_pos s), n_calls = Suc (n_calls s),
      events = events s @ [Print_Starting (pick w (stopped_services s) (rng_pos s)),
         Subprocess_call (DOCKER_BASE_COMMAND @ [''start'', pick w (stopped_services s) (rng_pos s)])]\<rparr>"
  using pick_in[OF assms, of "rng_pos s"] order_nonempty[OF assms]
  by (simp add: start_service_def random_choice_def set_remove_def emit_def subprocess_call_def pick_def)

lemma stop_service_eq:
  assumes "lists_sets w" "A \<noteq> {||}"
  shows "stop_service w A s = Inr
     \<lparr>stopped_services = finsert (pick w A (rng_pos s)) (stopped_services s),
      print_ps = True, rng_pos = Suc (rng_pos s), n_calls = Suc (n_calls s),
      events = events s @ [Print_Stopping (pick w A (rng_pos s)),
         Subprocess_call (DOCKER_BASE_COMMAND @ [''stop'', pick w A (rng_pos s)])]\<rparr>"
  using order_nonempty[OF assms]
  by (simp add: stop_service_def random_choice_def set_add_def emit_def subprocess_call_def pick_def)


lemma iteration_start:
  assumes "lists_sets w" "stopped_services s \<noteq> {||}" "rand_float w (rng_pos s) < starting_chance c"
  shows "iteration c w s = time_sleep (sleep_time c)
     \<lparr>stopped_services = stopped_services s |-| {|pick w (stopped_services s) (Suc (rng_pos s))|},
      print_ps = False, rng_pos = rng_pos s + 2, n_calls = n_calls s + 2,
      events = events s @ [Print_Starting (pick w (stopped_services s) (Suc (rng_pos s))),
         Subprocess_call (DOCKER_BASE_COMMAND @ [''start'', pick w (stopped_services s) (Suc (rng_pos s))]),
         Print_docker_ps_status, Subprocess_call (DOCKER_BASE_COMMAND @ [''ps''])]\<rparr>"
  using assms
  by (simp add: iteration_def random_random_def start_service_eq report_def emit_def subprocess_call_def)

lemma iteration_stop:
  assumes "lists_sets w" "\<not> (stopped_services s \<noteq> {||} \<and> rand_float w (rng_pos s) < starting_chance c)"
    "available_services c s \<noteq> {||}" "rand_float w (stop_draw_pos s) < stopping_chance c"
  shows "iteration c w s = time_sleep (sleep_time c)
     \<lparr>stopped_services = finsert (pick w (available_services c s) (Suc (stop_draw_pos s))) (stopped_services s),
      print_ps = False, rng_pos = stop_draw_pos s + 2, n_calls = n_calls s + 2,
      events = events s @ [Print_Stopping (pick w (available_services c s) (Suc (stop_draw_pos s))),
         Subprocess_call (DOCKER_BASE_COMMAND @ [''stop'', pick w (available_services c s) (Suc (stop_draw_pos s))]),
         Print_docker_ps_status, Subprocess_call (DOCKER_BASE_COMMAND @ [''ps''])]\<rparr>"
proof (cases "stopped_services s = {||}")
  case True
  with assms show ?thesis
    by (simp add: iteration_def Let_def random_random_def stop_service_eq report_def emit_def
        subprocess_call_def stop_draw_pos_def)
next
  case False
  with assms show ?thesis
    by (simp add: iteration_def Let_def random_random_def stop_service_eq report_def emit_def
        subprocess_call_def stop_draw_pos_def)
qed

lemma iteration_idle:
  assumes "\<not> (stopped_services s \<noteq> {||} \<and> rand_float w (rng_pos s) < starting_chance c)"
    "\<not> (available_services c s \<noteq> {||} \<and> rand_float w (stop_draw_pos s) < stopping_chance c)"
  shows "iteration c w s = time_sleep (sleep_time c)
     \<lparr>stopped_services = stopped_services s,
      print_ps = False,
      rng_pos = (if available_services c s = {||} then stop_draw_pos s else Suc (stop_draw_pos s)),
      n_calls = (if print_ps s then Suc (n_calls s) else n_calls s),
      events = events s @ (if print_ps s
         then [Print_docker_ps_status, Subprocess_call (DOCKER_BASE_COMMAND @ [''ps''])]
         else [Print_Not_doing_anything (sleep_time c)])\<rparr>"
proof (cases s)
  case (fields st pp rp nc ev)
  with assms show ?thesis
    by (cases "st = {||}"; cases "services c |-| st = {||}"; cases pp)
      (simp_all add: iteration_def Let_def random_random_def report_def emit_def
        subprocess_call_def stop_draw_pos_def available_services_def)
qed


lemma iteration_sleeps:
  assumes "lists_sets w"
  shows "\<exists>s'. iteration c w s = time_sleep (sleep_time c) s'"
proof -
  consider (start) "stopped_services s \<noteq> {||} \<and> rand_float w (rng_pos s) < starting_chance c"
    | (stop) "\<not> (stopped_services s \<noteq> {||} \<and> rand_float w (rng_pos s) < starting_chance c)"
        "available_services c s \<noteq> {||}" "rand_float w (stop_draw_pos s) < stopping_chance c"
    | (idle) "\<not> (stopped_services s \<noteq> {||} \<and> rand_float w (rng_pos s) < starting_chance c)"
        "\<not> (available_services c s \<noteq> {||} \<and> rand_float w (stop_draw_pos s) < stopping_chance c)"
    by blast
  then show ?thesis
  proof cases
    case start
    then show ?thesis using iteration_start[OF assms, of s c] by blast
  next
    case stop
    then show ?thesis using iteration_stop[OF assms, of s c] by blast
  next
    case idle
    then show ?thesis using iteration_idle[of s w c] by blast
  qed
qed

lemma iteration_result:
  assumes "lists_sets w"
  shows "iteration c w s = (if sleep_time c < 0 then Inl (ValueError, state_of (iteration c w s))
                            else Inr (state_of (iteration c w s)))"
proof -
  obtain s' where "iteration c w s = time_sleep (sleep_time c) s'"
    using iteration_sleeps[OF assms] by blast
  then show ?thesis by (simp add: time_sleep_def)
qed

lemma main_loop_invariant:
  assumes step: "\<And>s. I s \<Longrightarrow> I (state_of (iteration c w s))" and init: "I s"
  shows "I (state_of (main_loop c w n s))"
  using init
proof (induction n arbitrary: s)
  case 0
  then show ?case by simp
next
  case (Suc n)
  show ?case
  proof (cases "iteration c w s")
    case (Inl x)
    then have "state_of (main_loop c w (Suc n) s) = state_of (iteration c w s)" by simp
    with step[OF Suc.prems] show ?thesis by simp
  next
    case (Inr s')
    then have "I s'" using step[OF Suc.prems] by simp
    then have "I (state_of (main_loop c w n s'))" by (rule Suc.IH)
    with Inr show ?thesis by simp
  qed
qed

lemma main_loop_total:
  assumes "lists_sets w" "0 \<le> sleep_time c"
  shows "main_loop c w n s = Inr (state_of (main_loop c w n s))"
proof (induction n arbitrary: s)
  case 0
  show ?case by simp
next
  case (Suc n)
  have "iteration c w s = Inr (state_of (iteration c w s))"
    using iteration_result[OF assms(1), of c s] assms(2) by simp
  then show ?case using Suc.IH[of "state_of (iteration c w s)"]
    by (metis main_loop.simps(2) sum.simps(6))
qed

lemma start_service_exit_status:
  "start_service (w\<lparr>exit_status := e\<rparr>) s = start_service w s"
  by (simp add: start_service_def random_choice_def subprocess_call_def split: sum.split)

lemma stop_service_exit_status:
  "stop_service (w\<lparr>exit_status := e\<rparr>) A s = stop_service w A s"
  by (simp add: stop_service_def random_choice_def subprocess_call_def split: sum.split)

lemma report_exit_status:
  "report c (w\<lparr>exit_status := e\<rparr>) s = report c w s"
  by (simp add: report_def subprocess_call_def)

lemma iteration_exit_status:
  "iteration c (w\<lparr>exit_status := e\<rparr>) s = iteration c w s"
  by (simp add: iteration_def Let_def random_random_def start_service_exit_status
      stop_service_exit_status report_exit_status cong: sum.case_cong)

lemma state_of_sleep_record:
  "state_of (time_sleep t \<lparr>stopped_services = A, print_ps = b, rng_pos = r, n_calls = k, events = es\<rparr>) =
     \<lparr>stopped_services = A, print_ps = b, rng_pos = r, n_calls = k,
      events = es @ (if t < 0 then [] else [Time_sleep t])\<rparr>"
  by (simp add: time_sleep_def emit_def)

lemma iteration_cases [case_names start stop idle]:
  assumes "lists_sets w"
  obtains
    (start) x where "stopped_services s \<noteq> {||}" "rand_float w (rng_pos s) < starting_chance c"
      "x |\<in>| stopped_services s"
      "state_of (iteration c w s) =
         \<lparr>stopped_services = stopped_services s |-| {|x|}, print_ps = False,
          rng_pos = rng_pos s + 2, n_calls = n_calls s + 2,
          events = (events s @ [Print_Starting x,
             Subprocess_call (DOCKER_BASE_COMMAND @ [''start'', x]),
             Print_docker_ps_status, Subprocess_call (DOCKER_BASE_COMMAND @ [''ps''])])
             @ (if sleep_time c < 0 then [] else [Time_sleep (sleep_time c)])\<rparr>"
  | (stop) x where
      "\<not> (stopped_services s \<noteq> {||} \<and> rand_float w (rng_pos s) < starting_chance c)"
      "available_services c s \<noteq> {||}" "rand_float w (stop_draw_pos s) < stopping_chance c"
      "x |\<in>| available_services c s"
      "state_of (iteration c w s) =
         \<lparr>stopped_services = finsert x (stopped_services s), print_ps = False,
          rng_pos = stop_draw_pos s + 2, n_calls = n_calls s + 2,
          events = (events s @ [Print_Stopping x,
             Subprocess_call (DOCKER_BASE_COMMAND @ [''stop'', x]),
             Print_docker_ps_status, Subprocess_call (DOCKER_BASE_COMMAND @ [''ps''])])
             @ (if sleep_time c < 0 then [] else [Time_sleep (sleep_time c)])\<rparr>"
  | (idle)
      "\<not> (stopped_services s \<noteq> {||} \<and> rand_float w (rng_pos s) < starting_chance c)"
      "\<not> (available_services c s \<noteq> {||} \<and> rand_float w (stop_draw_pos s) < stopping_chance c)"
      "state_of (iteration c w s) =
         \<lparr>stopped_services = stopped_services s, print_ps = False,
          rng_pos = (if available_services c s = {||} then stop_draw_pos s
                     else Suc (stop_draw_pos s)),
          n_calls = (if print_ps s then Suc (n_calls s) else n_calls s),
          events = (events s @ (if print_ps s
             then [Print_docker_ps_status, Subprocess_call (DOCKER_BASE_COMMAND @ [''ps''])]
             else [Print_Not_doing_anything (sleep_time c)]))
             @ (if sleep_time c < 0 then [] else [Time_sleep (sleep_time c)])\<rparr>"
proof -
  consider (a) "stopped_services s \<noteq> {||} \<and> rand_float w (rng_pos s) < starting_chance c"
    | (b) "\<not> (stopped_services s \<noteq> {||} \<and> rand_float w (rng_pos s) < starting_chance c)"
        "available_services c s \<noteq> {||}" "rand_float w (stop_draw_pos s) < stopping_chance c"
    | (c) "\<not> (stopped_services s \<noteq> {||} \<and> rand_float w (rng_pos s) < starting_chance c)"
        "\<not> (available_services c s \<noteq> {||} \<and> rand_float w (stop_draw_pos s) < stopping_chance c)"
    by blast
  then show thesis
  proof cases
    case a
    then have ne: "stopped_services s \<noteq> {||}"
      and dr: "rand_float w (rng_pos s) < starting_chance c" by simp_all
    show thesis
      by (rule start[OF ne dr pick_in[OF assms ne, of "Suc (rng_pos s)"]])
        (simp only: iteration_start[OF assms ne dr] state_of_sleep_record)
  next
    case b
    show thesis
      by (rule stop[OF b pick_in[OF assms b(2), of "Suc (stop_draw_pos s)"]])
        (simp only: iteration_stop[OF assms b] state_of_sleep_record)
  next
    case c
    show thesis
      by (rule idle[OF c]) (simp only: iteration_idle[OF c] state_of_sleep_record)
  qed
qed

lemma butlast_command [simp]: "butlast (xs @ [a, x]) = xs @ [a]"
  by (simp add: butlast_append)

lemma starts_record [simp]:
  "starts \<lparr>stopped_services = A, print_ps = b, rng_pos = r, n_calls = k, events = es\<rparr> =
     length (filter is_start es)"
  by (simp add: starts_def)

lemma stops_record [simp]:
  "stops \<lparr>stopped_services = A, print_ps = b, rng_pos = r, n_calls = k, events = es\<rparr> =
     length (filter is_stop es)"
  by (simp add: stops_def)

lemma changed_le_one: "changed A B |\<subseteq>| {|x|} \<Longrightarrow> fcard (changed A B) \<le> 1"
  using fcard_mono[of "changed A B" "{|x|}"] by (simp add: fcard_finsert_if fcard_fempty)

lemma main_loop_total_inv:
  assumes step: "\<And>s. I s \<Longrightarrow> iteration c w s = Inr (state_of (iteration c w s))
                          \<and> I (state_of (iteration c w s))"
    and init: "I s"
  shows "main_loop c w n s = Inr (state_of (main_loop c w n s))"
  using init
proof (induction n arbitrary: s)
  case 0
  show ?case by simp
next
  case (Suc n)
  from step[OF Suc.prems]
  have it: "iteration c w s = Inr (state_of (iteration c w s))"
    and inv: "I (state_of (iteration c w s))" by simp_all
  have "main_loop c w (Suc n) s = main_loop c w n (state_of (iteration c w s))"
    using it by (cases "iteration c w s") simp_all
  with Suc.IH[OF inv] show ?case by simp
qed

lemma example_world_lists_sets: "lists_sets example_world"
  by (simp add: lists_sets_def example_world_def)

lemma example_world_unit_draws: "unit_draws example_world"
  by (simp add: unit_draws_def example_world_def)

lemma pick_single: "lists_sets w \<Longrightarrow> pick w {|x|} i = x"
  using pick_in[of w "{|x|}" i] by simp

lemma print_ps_cleared:
  assumes "lists_sets w"
  shows "\<not> print_ps (state_of (iteration c w s))"
  using assms by (cases rule: iteration_cases[where s = s and c = c]) simp_all

lemma print_ps_cleared_loop:
  assumes "lists_sets w"
  shows "\<not> print_ps (state_of (main_loop c w (Suc n) s))"
proof (induction n arbitrary: s)
  case 0
  show ?case using print_ps_cleared[OF assms, of c s]
    by (cases "iteration c w s") auto
next
  case (Suc n)
  show ?case
  proof (cases "iteration c w s")
    case (Inl x)
    with print_ps_cleared[OF assms, of c s] show ?thesis by (cases x) simp
  next
    case (Inr s')
    with Suc.IH[of s'] show ?thesis by simp
  qed
qed

lemma main_loop_add:
  "main_loop c w (m + k) s =
     (case main_loop c w m s of Inl x \<Rightarrow> Inl x | Inr s' \<Rightarrow> main_loop c w k s')"
  by (induction m arbitrary: s) (simp_all split: sum.split)

lemma iteration_start_always:
  assumes "lists_sets w" and "unit_draws w" and "starting_chance c = 1"
    and "stopped_services s \<noteq> {||}"
  shows "starts (state_of (iteration c w s)) = starts s + 1
    \<and> stops (state_of (iteration c w s)) = stops s
    \<and> fcard (stopped_services (state_of (iteration c w s))) + 1 = fcard (stopped_services s)"
proof -
  have lt: "rand_float w (rng_pos s) < starting_chance c"
    using assms(2,3) by (simp add: unit_draws_def)
  from assms(1) show ?thesis
  proof (cases rule: iteration_cases[where s = s and c = c])
    case (start x)
    moreover have "Suc (fcard (stopped_services s |-| {|x|})) = fcard (stopped_services s)"
      by (rule fcard_Suc_fminus1[OF start(3)])
    ultimately show ?thesis
      by (simp add: starts_def stops_def del: fcard_fminus_finsert)
  next
    case (stop x)
    with lt assms(4) show ?thesis by simp
  next
    case idle
    with lt assms(4) show ?thesis by simp
  qed
qed

lemma start_loop:
  assumes "lists_sets w" and "unit_draws w" and "starting_chance c = 1"
    and "0 \<le> sleep_time c"
  shows "fcard (stopped_services s) = k \<Longrightarrow>
     main_loop c w k s = Inr (state_of (main_loop c w k s))
     \<and> stopped_services (state_of (main_loop c w k s)) = {||}
     \<and> starts (state_of (main_loop c w k s)) = starts s + k
     \<and> stops (state_of (main_loop c w k s)) = stops s"
proof (induction k arbitrary: s)
  case 0
  then show ?case by simp
next
  case (Suc k)
  let ?s1 = "state_of (iteration c w s)"
  from Suc.prems have ne: "stopped_services s \<noteq> {||}" by (auto simp: fcard_fempty)
  note st = iteration_start_always[OF assms(1-3) ne]
  from st Suc.prems have card: "fcard (stopped_services ?s1) = k" by simp
  have it: "iteration c w s = Inr ?s1"
    using iteration_result[OF assms(1), of c s] assms(4) by simp
  then have ml: "main_loop c w (Suc k) s = main_loop c w k ?s1"
    by (cases "iteration c w s") simp_all
  from Suc.IH[OF card] st show ?case by (simp only: ml) simp
qed

subsection \<open>The stopped set and the available set\<close>

text \<open>
  Claim C1.  In every state of the loop that a run from the initial state reaches, after
  any number of passes and under any random draws (the state with which a pass begins, or
  the state at a raise), the stopped set is a subset of the configured service set; the
  available set that the next pass computes on line 25 is the service set minus the
  stopped set, so the two sets are disjoint and their union is the service set.  When
  the sleep time is not negative no exception is raised and every number of passes is
  reached.
\<close>

theorem stopped_subset_of_services:
  assumes "lists_sets w"
  shows "(let s = state_of (main c w n) in
      stopped_services s |\<subseteq>| services c
    \<and> available_services c s = services c |-| stopped_services s
    \<and> stopped_services s |\<union>| available_services c s = services c
    \<and> stopped_services s |\<inter>| available_services c s = {||})
    \<and> (0 \<le> sleep_time c \<longrightarrow> main c w n = Inr (state_of (main c w n)))"
proof -
  have step: "stopped_services (state_of (iteration c w s)) |\<subseteq>| services c"
    if "stopped_services s |\<subseteq>| services c" for s
    using assms
  proof (cases rule: iteration_cases[where s = s and c = c])
    case (start x)
    with that show ?thesis by auto
  next
    case (stop x)
    with that show ?thesis by (auto simp: available_services_def)
  next
    case idle
    with that show ?thesis by simp
  qed
  have "stopped_services (state_of (main_loop c w n initial_state)) |\<subseteq>| services c"
    by (rule main_loop_invariant[where I = "\<lambda>s. stopped_services s |\<subseteq>| services c"])
      (simp_all add: step initial_state_def)
  then have sub: "stopped_services (state_of (main c w n)) |\<subseteq>| services c"
    by (simp add: main_def)
  have tot: "0 \<le> sleep_time c \<longrightarrow> main c w n = Inr (state_of (main c w n))"
    using main_loop_total[OF assms] by (simp add: main_def)
  from sub tot show ?thesis
    by (auto simp: Let_def available_services_def)
qed

theorem stopped_subset_of_services_witness:
  "lists_sets example_world \<and> 0 \<le> sleep_time example_config
   \<and> main example_config example_world 3 = Inr (state_of (main example_config example_world 3))
   \<and> stopped_services (state_of (main example_config example_world 3)) = {|''node1''|}
   \<and> stopped_services (state_of (main example_config example_world 3)) |\<subseteq>| services example_config
   \<and> stopped_services (state_of (main example_config example_world 3))
        |\<union>| available_services example_config (state_of (main example_config example_world 3))
       = services example_config
   \<and> stopped_services (state_of (main example_config example_world 3))
        |\<inter>| available_services example_config (state_of (main example_config example_world 3))
       = {||}"
proof -
  have h: "lists_sets example_world" by (fact example_world_lists_sets)
  have s: "0 \<le> sleep_time example_config" by (simp add: example_config_def)
  have v: "stopped_services (state_of (main example_config example_world 3)) = {|''node1''|}"
    by code_simp
  from stopped_subset_of_services[OF h, of example_config 3] h s v show ?thesis
    unfolding Let_def by blast
qed

subsection \<open>One action per pass\<close>

text \<open>
  Claim C2.  In one pass of the loop the number of start commands and the number of stop
  commands issued grow by at most one in total, and at most one service enters or leaves
  the stopped set, and at most one the available set.  When the stopped set is not empty
  and the start draw is below the starting chance, the pass issues one start command and
  no stop command, and the generator is called exactly twice (the start draw and the
  choice of the service), so the condition of the \<^verbatim>\<open>elif\<close> is not evaluated.  A pass that
  issues a stop command is one in which the start condition was false.
\<close>

theorem one_action_per_iteration:
  assumes "lists_sets w"
  shows "(let s' = state_of (iteration c w s) in
      starts s \<le> starts s' \<and> stops s \<le> stops s'
    \<and> (starts s' - starts s) + (stops s' - stops s) \<le> 1
    \<and> fcard (changed (stopped_services s) (stopped_services s')) \<le> 1
    \<and> fcard (changed (available_services c s) (available_services c s')) \<le> 1
    \<and> (stopped_services s \<noteq> {||} \<and> rand_float w (rng_pos s) < starting_chance c \<longrightarrow>
          starts s' = starts s + 1 \<and> stops s' = stops s \<and> rng_pos s' = rng_pos s + 2)
    \<and> (stops s' \<noteq> stops s \<longrightarrow>
          \<not> (stopped_services s \<noteq> {||} \<and> rand_float w (rng_pos s) < starting_chance c)))"
  using assms
proof (cases rule: iteration_cases[where s = s and c = c])
  case (start x)
  have 1: "changed (stopped_services s) (stopped_services s |-| {|x|}) |\<subseteq>| {|x|}"
    by (auto simp: changed_def)
  have 2: "changed (services c |-| stopped_services s)
             (services c |-| (stopped_services s |-| {|x|})) |\<subseteq>| {|x|}"
    by (auto simp: changed_def)
  from start changed_le_one[OF 1] changed_le_one[OF 2] show ?thesis
    by (simp add: Let_def starts_def stops_def available_services_def)
next
  case (stop x)
  have 1: "changed (stopped_services s) (finsert x (stopped_services s)) |\<subseteq>| {|x|}"
    by (auto simp: changed_def)
  have 2: "changed (services c |-| stopped_services s)
             (services c |-| finsert x (stopped_services s)) |\<subseteq>| {|x|}"
    by (auto simp: changed_def)
  from stop changed_le_one[OF 1] changed_le_one[OF 2] show ?thesis
    by (simp add: Let_def starts_def stops_def available_services_def)
next
  case idle
  have 1: "changed A A = {||}" for A by (auto simp: changed_def)
  from idle show ?thesis
    by (simp add: Let_def starts_def stops_def available_services_def 1 fcard_fempty)
qed

theorem one_action_per_iteration_witness:
  "lists_sets example_world
   \<and> stopped_services (state_of (main example_config example_world 1)) \<noteq> {||}
   \<and> rand_float example_world (rng_pos (state_of (main example_config example_world 1)))
        < starting_chance example_config
   \<and> starts (state_of (iteration example_config example_world
          (state_of (main example_config example_world 1))))
        = starts (state_of (main example_config example_world 1)) + 1
   \<and> stops (state_of (iteration example_config example_world
          (state_of (main example_config example_world 1))))
        = stops (state_of (main example_config example_world 1))
   \<and> stops (state_of (iteration example_config example_world initial_state))
        \<noteq> stops initial_state
   \<and> \<not> (stopped_services initial_state \<noteq> {||}
          \<and> rand_float example_world (rng_pos initial_state) < starting_chance example_config)"
proof -
  have h: "lists_sets example_world" by (fact example_world_lists_sets)
  have a1: "stopped_services (state_of (main example_config example_world 1)) \<noteq> {||}"
    by code_simp
  have a2: "rand_float example_world (rng_pos (state_of (main example_config example_world 1)))
        < starting_chance example_config"
    by (simp add: example_world_def example_config_def)
  have b1: "stops (state_of (iteration example_config example_world initial_state))
        \<noteq> stops initial_state"
    by code_simp
  from one_action_per_iteration[OF h, where c = example_config
      and s = "state_of (main example_config example_world 1)"]
    one_action_per_iteration[OF h, where c = example_config and s = initial_state] h a1 a2 b1
  show ?thesis unfolding Let_def by blast
qed

subsection \<open>Exit statuses\<close>

text \<open>
  Claim C3.  The run does not depend on the exit statuses of the external commands: two
  runs in worlds that differ at most in the exit statuses (of the start, stop and ps
  commands alike, zero or not) agree after every number of passes, in the stopped set,
  the flag and everything else of the state, as in the errors raised.  In particular the
  state is the one of the run in which every command exits with status 0.
\<close>

theorem exit_status_ignored:
  "main c (w\<lparr>exit_status := e1\<rparr>) n = main c (w\<lparr>exit_status := e2\<rparr>) n"
proof -
  have "main_loop c (w\<lparr>exit_status := e\<rparr>) n s = main_loop c w n s" for e s
    by (induction n arbitrary: s) (simp_all add: iteration_exit_status split: sum.split)
  then show ?thesis by (simp add: main_def)
qed

subsection \<open>Stopping chance one\<close>

text \<open>
  Claim C4 says that with stopping chance 1 a pass that begins with a non-empty available
  set issues exactly one stop command, for every starting chance.  The loop tries to start
  first: with two services and both chances 1, the first pass stops node1, and the second
  pass, which begins with node2 available, starts node1 again and stops nothing.
\<close>

theorem stop_every_pass_counterexample:
  "stopping_chance example_config = 1
   \<and> available_services example_config (state_of (main example_config example_world 1))
       = {|''node2''|}
   \<and> stops (state_of (main example_config example_world 1)) = 1
   \<and> main example_config example_world 2
       = iteration example_config example_world (state_of (main example_config example_world 1))
   \<and> stops (state_of (main example_config example_world 2)) = 1
   \<and> \<not> (stopping_chance example_config = 1
          \<and> available_services example_config (state_of (main example_config example_world 1))
              \<noteq> {||}
        \<longrightarrow> stops (state_of (iteration example_config example_world
                (state_of (main example_config example_world 1))))
              = stops (state_of (main example_config example_world 1)) + 1)"
proof -
  have 1: "stopping_chance example_config = 1" by (simp add: example_config_def)
  have 2: "available_services example_config (state_of (main example_config example_world 1))
       = {|''node2''|}" by code_simp
  have 3: "stops (state_of (main example_config example_world 1)) = 1" by code_simp
  have 4: "main example_config example_world 2
       = iteration example_config example_world (state_of (main example_config example_world 1))"
    by code_simp
  have 5: "stops (state_of (main example_config example_world 2)) = 1" by code_simp
  from 1 2 3 4 5 show ?thesis by simp
qed

text \<open>
  Claim C4, amended.  With stopping chance 1 and draws in the interval from 0 to 1, a pass
  that begins with a non-empty available set issues exactly one stop command, no start
  command, and makes the available set one smaller, if the start is not taken in it (the
  stopped set is empty or the start draw is not below the starting chance); that is so in
  every pass when the starting chance is 0.  If the start is taken, the pass issues one
  start command and no stop command.
\<close>

theorem stop_unless_start:
  assumes "lists_sets w" and "unit_draws w" and "stopping_chance c = 1"
    and "available_services c s \<noteq> {||}"
  shows "(\<not> (stopped_services s \<noteq> {||} \<and> rand_float w (rng_pos s) < starting_chance c) \<longrightarrow>
        stops (state_of (iteration c w s)) = stops s + 1
      \<and> starts (state_of (iteration c w s)) = starts s
      \<and> fcard (available_services c (state_of (iteration c w s))) + 1
          = fcard (available_services c s))
    \<and> (starting_chance c = 0 \<longrightarrow>
        stops (state_of (iteration c w s)) = stops s + 1
      \<and> starts (state_of (iteration c w s)) = starts s
      \<and> fcard (available_services c (state_of (iteration c w s))) + 1
          = fcard (available_services c s))
    \<and> (stopped_services s \<noteq> {||} \<and> rand_float w (rng_pos s) < starting_chance c \<longrightarrow>
        stops (state_of (iteration c w s)) = stops s
      \<and> starts (state_of (iteration c w s)) = starts s + 1)"
proof -
  have lt: "rand_float w i < stopping_chance c" and ge: "\<not> rand_float w i < 0" for i
    using assms(2,3) by (simp_all add: unit_draws_def not_less)
  have a: "stops (state_of (iteration c w s)) = stops s + 1
      \<and> starts (state_of (iteration c w s)) = starts s
      \<and> fcard (available_services c (state_of (iteration c w s))) + 1
          = fcard (available_services c s)"
    if no: "\<not> (stopped_services s \<noteq> {||} \<and> rand_float w (rng_pos s) < starting_chance c)"
    using assms(1)
  proof (cases rule: iteration_cases[where s = s and c = c])
    case (start x)
    with no show ?thesis by simp
  next
    case (stop x)
    have "services c |-| finsert x (stopped_services s) = available_services c s |-| {|x|}"
      by (auto simp: available_services_def)
    moreover have "Suc (fcard (available_services c s |-| {|x|})) = fcard (available_services c s)"
      by (rule fcard_Suc_fminus1[OF stop(4)])
    ultimately show ?thesis using stop(5)
      by (simp add: starts_def stops_def available_services_def del: fcard_fminus_finsert)
  next
    case idle
    with lt assms(4) show ?thesis by simp
  qed
  have b: "stops (state_of (iteration c w s)) = stops s
      \<and> starts (state_of (iteration c w s)) = starts s + 1"
    if yes: "stopped_services s \<noteq> {||} \<and> rand_float w (rng_pos s) < starting_chance c"
    using assms(1)
  proof (cases rule: iteration_cases[where s = s and c = c])
    case (start x)
    then show ?thesis by (simp add: starts_def stops_def)
  next
    case (stop x)
    with yes show ?thesis by simp
  next
    case idle
    with yes show ?thesis by simp
  qed
  have z: "\<not> (stopped_services s \<noteq> {||} \<and> rand_float w (rng_pos s) < starting_chance c)"
    if "starting_chance c = 0"
    using that ge by simp
  from a b z show ?thesis by blast
qed

theorem stop_unless_start_witness:
  "lists_sets example_world \<and> unit_draws example_world
   \<and> stopping_chance example_config = 1
   \<and> available_services example_config initial_state \<noteq> {||}
   \<and> \<not> (stopped_services initial_state \<noteq> {||}
          \<and> rand_float example_world (rng_pos initial_state) < starting_chance example_config)
   \<and> stops (state_of (iteration example_config example_world initial_state))
        = stops initial_state + 1
   \<and> stopping_chance node1_config = 1 \<and> starting_chance node1_config = 0
   \<and> available_services node1_config initial_state \<noteq> {||}
   \<and> stops (state_of (iteration node1_config example_world initial_state))
        = stops initial_state + 1
   \<and> available_services example_config (state_of (main example_config example_world 1)) \<noteq> {||}
   \<and> stopped_services (state_of (main example_config example_world 1)) \<noteq> {||}
   \<and> rand_float example_world (rng_pos (state_of (main example_config example_world 1)))
        < starting_chance example_config
   \<and> stops (state_of (iteration example_config example_world
          (state_of (main example_config example_world 1))))
        = stops (state_of (main example_config example_world 1))"
proof -
  have h: "lists_sets example_world" by (fact example_world_lists_sets)
  have u: "unit_draws example_world" by (fact example_world_unit_draws)
  have c1: "stopping_chance example_config = 1" by (simp add: example_config_def)
  have c2: "stopping_chance node1_config = 1" and c3: "starting_chance node1_config = 0"
    by (simp_all add: node1_config_def)
  have a1: "available_services example_config initial_state \<noteq> {||}"
    by (simp add: available_services_def example_config_def initial_state_def)
  have a2: "available_services node1_config initial_state \<noteq> {||}"
    by (simp add: available_services_def node1_config_def initial_state_def)
  have a3: "available_services example_config (state_of (main example_config example_world 1))
      \<noteq> {||}"
    by code_simp
  have n1: "\<not> (stopped_services initial_state \<noteq> {||}
      \<and> rand_float example_world (rng_pos initial_state) < starting_chance example_config)"
    by (simp add: initial_state_def)
  have y1: "stopped_services (state_of (main example_config example_world 1)) \<noteq> {||}"
    by code_simp
  have y2: "rand_float example_world (rng_pos (state_of (main example_config example_world 1)))
      < starting_chance example_config"
    by (simp add: example_world_def example_config_def)
  from stop_unless_start[OF h u c1 a1] stop_unless_start[OF h u c2 a2]
    stop_unless_start[OF h u c1 a3] h u c1 c2 c3 a1 a2 a3 n1 y1 y2
  show ?thesis by blast
qed

subsection \<open>Starting chance one\<close>

text \<open>
  Claim C5.  With starting chance 1 and draws in the interval from 0 to 1, whatever the
  stopping chance: a pass that begins with a non-empty stopped set issues exactly one start
  command, no stop command, and makes the stopped set one smaller.  Hence from a state
  \<open>s\<close>, as many passes as the stopped set of \<open>s\<close> has elements are all starts and end with
  the stopped set empty: when the sleep time is not negative, from every state; and in
  every run from the initial state, from every state with which one of its passes begins.
\<close>

theorem start_every_pass:
  assumes "lists_sets w" and "unit_draws w" and "starting_chance c = 1"
  shows "(stopped_services s \<noteq> {||} \<longrightarrow>
        starts (state_of (iteration c w s)) = starts s + 1
      \<and> stops (state_of (iteration c w s)) = stops s
      \<and> fcard (stopped_services (state_of (iteration c w s))) + 1 = fcard (stopped_services s))
    \<and> (0 \<le> sleep_time c \<longrightarrow>
        main_loop c w (fcard (stopped_services s)) s
          = Inr (state_of (main_loop c w (fcard (stopped_services s)) s))
      \<and> stopped_services (state_of (main_loop c w (fcard (stopped_services s)) s)) = {||}
      \<and> starts (state_of (main_loop c w (fcard (stopped_services s)) s))
          = starts s + fcard (stopped_services s)
      \<and> stops (state_of (main_loop c w (fcard (stopped_services s)) s)) = stops s)
    \<and> (main c w m = Inr s \<longrightarrow>
        main c w (m + fcard (stopped_services s))
          = Inr (state_of (main c w (m + fcard (stopped_services s))))
      \<and> stopped_services (state_of (main c w (m + fcard (stopped_services s)))) = {||})"
proof -
  have a: "stopped_services s \<noteq> {||} \<longrightarrow>
        starts (state_of (iteration c w s)) = starts s + 1
      \<and> stops (state_of (iteration c w s)) = stops s
      \<and> fcard (stopped_services (state_of (iteration c w s))) + 1 = fcard (stopped_services s)"
    using iteration_start_always[OF assms] by blast
  have b: "0 \<le> sleep_time c \<longrightarrow>
        main_loop c w (fcard (stopped_services s)) s
          = Inr (state_of (main_loop c w (fcard (stopped_services s)) s))
      \<and> stopped_services (state_of (main_loop c w (fcard (stopped_services s)) s)) = {||}
      \<and> starts (state_of (main_loop c w (fcard (stopped_services s)) s))
          = starts s + fcard (stopped_services s)
      \<and> stops (state_of (main_loop c w (fcard (stopped_services s)) s)) = stops s"
    using start_loop[OF assms, of s "fcard (stopped_services s)"] by blast
  have c: "main c w (m + fcard (stopped_services s))
          = Inr (state_of (main c w (m + fcard (stopped_services s))))
      \<and> stopped_services (state_of (main c w (m + fcard (stopped_services s)))) = {||}"
    if r: "main c w m = Inr s"
  proof (cases "stopped_services s = {||}")
    case True
    with r show ?thesis by (simp add: fcard_fempty)
  next
    case False
    have "0 \<le> sleep_time c"
    proof (cases m)
      case 0
      with r False show ?thesis by (auto simp: main_def initial_state_def)
    next
      case (Suc n)
      show ?thesis
      proof (rule ccontr)
        assume "\<not> 0 \<le> sleep_time c"
        then have "iteration c w initial_state
            = Inl (ValueError, state_of (iteration c w initial_state))"
          using iteration_result[OF assms(1), of c initial_state] by simp
        then have "main c w (Suc n) = Inl (ValueError, state_of (iteration c w initial_state))"
          by (cases "iteration c w initial_state") (simp_all add: main_def)
        with r Suc show False by simp
      qed
    qed
    with b have "main_loop c w (fcard (stopped_services s)) s
          = Inr (state_of (main_loop c w (fcard (stopped_services s)) s))
      \<and> stopped_services (state_of (main_loop c w (fcard (stopped_services s)) s)) = {||}"
      by blast
    moreover have "main c w (m + fcard (stopped_services s))
        = main_loop c w (fcard (stopped_services s)) s"
      using r by (simp add: main_def main_loop_add)
    ultimately show ?thesis by simp
  qed
  from a b c show ?thesis by blast
qed

theorem start_every_pass_witness:
  "lists_sets example_world \<and> unit_draws example_world \<and> starting_chance example_config = 1
   \<and> stopped_services (state_of (main example_config example_world 1)) \<noteq> {||}
   \<and> starts (state_of (iteration example_config example_world
          (state_of (main example_config example_world 1))))
        = starts (state_of (main example_config example_world 1)) + 1
   \<and> 0 \<le> sleep_time example_config
   \<and> main example_config example_world 1 = Inr (state_of (main example_config example_world 1))
   \<and> stopped_services (state_of (main example_config example_world
          (1 + fcard (stopped_services (state_of (main example_config example_world 1))))))
        = {||}"
proof -
  have h: "lists_sets example_world" by (fact example_world_lists_sets)
  have u: "unit_draws example_world" by (fact example_world_unit_draws)
  have st: "starting_chance example_config = 1" by (simp add: example_config_def)
  have sl: "0 \<le> sleep_time example_config" by (simp add: example_config_def)
  have ne: "stopped_services (state_of (main example_config example_world 1)) \<noteq> {||}"
    by code_simp
  have r: "main example_config example_world 1
      = Inr (state_of (main example_config example_world 1))"
    using main_loop_total[OF h sl, of 1 initial_state] by (simp only: main_def)
  from start_every_pass[OF h u st, where m = 1
      and s = "state_of (main example_config example_world 1)"] h u st sl ne r
  show ?thesis by blast
qed

subsection \<open>Both chances zero\<close>

text \<open>
  Claim C6.  When the stopping chance and the starting chance are both 0 then, whatever
  the draws (each in the interval from 0 to 1), after any number of passes no start
  command and no stop command has been issued and the stopped set is still empty; and
  when the sleep time is not negative every number of passes is reached.
\<close>

theorem no_chance_no_action:
  assumes "stopping_chance c = 0" and "starting_chance c = 0" and "unit_draws w"
  shows "stopped_services (state_of (main c w n)) = {||}
    \<and> starts (state_of (main c w n)) = 0
    \<and> stops (state_of (main c w n)) = 0
    \<and> (0 \<le> sleep_time c \<longrightarrow> main c w n = Inr (state_of (main c w n)))"
proof -
  let ?I = "\<lambda>s. stopped_services s = {||} \<and> starts s = 0 \<and> stops s = 0"
  have nonneg: "\<not> rand_float w i < 0" for i
    using assms(3) by (simp add: unit_draws_def not_less)
  have idle: "iteration c w s = time_sleep (sleep_time c)
     \<lparr>stopped_services = stopped_services s,
      print_ps = False,
      rng_pos = (if available_services c s = {||} then stop_draw_pos s else Suc (stop_draw_pos s)),
      n_calls = (if print_ps s then Suc (n_calls s) else n_calls s),
      events = events s @ (if print_ps s
         then [Print_docker_ps_status, Subprocess_call (DOCKER_BASE_COMMAND @ [''ps''])]
         else [Print_Not_doing_anything (sleep_time c)])\<rparr>" if "?I s" for s
    by (rule iteration_idle) (simp_all add: that assms(1,2) nonneg)
  have step: "?I (state_of (iteration c w s))" if "?I s" for s
    using that by (simp add: idle[OF that] state_of_sleep_record) (simp add: starts_def stops_def)
  have init: "?I initial_state"
    by (simp add: initial_state_def starts_def stops_def)
  have inv: "?I (state_of (main_loop c w n initial_state))"
    by (rule main_loop_invariant[where I = ?I]) (fact step, fact init)
  have tot: "main_loop c w n initial_state = Inr (state_of (main_loop c w n initial_state))"
    if "0 \<le> sleep_time c"
  proof (rule main_loop_total_inv[where I = ?I])
    fix s assume "?I s"
    then show "iteration c w s = Inr (state_of (iteration c w s)) \<and> ?I (state_of (iteration c w s))"
      using step[of s] that by (simp add: idle time_sleep_def)
  qed (fact init)
  from inv tot show ?thesis by (simp add: main_def)
qed

theorem no_chance_no_action_witness:
  "stopping_chance (example_config\<lparr>stopping_chance := 0, starting_chance := 0\<rparr>) = 0
   \<and> starting_chance (example_config\<lparr>stopping_chance := 0, starting_chance := 0\<rparr>) = 0
   \<and> unit_draws example_world
   \<and> 0 \<le> sleep_time (example_config\<lparr>stopping_chance := 0, starting_chance := 0\<rparr>)
   \<and> stopped_services (state_of (main (example_config\<lparr>stopping_chance := 0, starting_chance := 0\<rparr>) example_world 4)) = {||}
   \<and> starts (state_of (main (example_config\<lparr>stopping_chance := 0, starting_chance := 0\<rparr>) example_world 4)) = 0
   \<and> stops (state_of (main (example_config\<lparr>stopping_chance := 0, starting_chance := 0\<rparr>) example_world 4)) = 0
   \<and> main (example_config\<lparr>stopping_chance := 0, starting_chance := 0\<rparr>) example_world 4
       = Inr (state_of (main (example_config\<lparr>stopping_chance := 0, starting_chance := 0\<rparr>) example_world 4))"
proof -
  let ?c = "example_config\<lparr>stopping_chance := 0, starting_chance := 0\<rparr>"
  have a: "stopping_chance ?c = 0" and b: "starting_chance ?c = 0" by simp_all
  have s: "0 \<le> sleep_time ?c" by (simp add: example_config_def)
  from no_chance_no_action[OF a b example_world_unit_draws, of 4] a b s example_world_unit_draws
  show ?thesis by simp
qed

subsection \<open>The example with one service\<close>

text \<open>
  Claim C7.  With the single service node1, stopping chance 1, starting chance 0 and sleep
  time 0, whatever the draws: the first pass issues the stop command for node1 and puts
  node1 into the stopped set (and prints the status).  At the second pass the available
  set is empty and the start draw, not being negative, does not succeed: the pass issues
  no command, and prints the message that it is just sleeping, not the status.
\<close>

theorem node1_example:
  assumes "lists_sets w" and "unit_draws w"
  shows "main node1_config w 1 = Inr
      \<lparr>stopped_services = {|''node1''|}, print_ps = False, rng_pos = 2, n_calls = 2,
       events = [Print_Stopping ''node1'',
                 Subprocess_call (DOCKER_BASE_COMMAND @ [''stop'', ''node1'']),
                 Print_docker_ps_status,
                 Subprocess_call (DOCKER_BASE_COMMAND @ [''ps'']),
                 Time_sleep 0]\<rparr>
    \<and> available_services node1_config (state_of (main node1_config w 1)) = {||}
    \<and> main node1_config w 2 = Inr
      \<lparr>stopped_services = {|''node1''|}, print_ps = False, rng_pos = 3, n_calls = 2,
       events = [Print_Stopping ''node1'',
                 Subprocess_call (DOCKER_BASE_COMMAND @ [''stop'', ''node1'']),
                 Print_docker_ps_status,
                 Subprocess_call (DOCKER_BASE_COMMAND @ [''ps'']),
                 Time_sleep 0,
                 Print_Not_doing_anything 0,
                 Time_sleep 0]\<rparr>"
proof -
  let ?s1 = "\<lparr>stopped_services = {|''node1''|}, print_ps = False, rng_pos = 2, n_calls = 2,
       events = [Print_Stopping ''node1'',
                 Subprocess_call (DOCKER_BASE_COMMAND @ [''stop'', ''node1'']),
                 Print_docker_ps_status,
                 Subprocess_call (DOCKER_BASE_COMMAND @ [''ps'']),
                 Time_sleep 0]\<rparr>"
  have lt1: "rand_float w i < 1" and ge0: "\<not> rand_float w i < 0" for i
    using assms(2) by (simp_all add: unit_draws_def not_less)
  have av: "available_services node1_config initial_state = {|''node1''|}"
    by (simp add: available_services_def node1_config_def initial_state_def)
  have "iteration node1_config w initial_state = time_sleep (sleep_time node1_config)
     \<lparr>stopped_services = finsert (pick w (available_services node1_config initial_state)
          (Suc (stop_draw_pos initial_state))) (stopped_services initial_state),
      print_ps = False, rng_pos = stop_draw_pos initial_state + 2,
      n_calls = n_calls initial_state + 2,
      events = events initial_state @ [Print_Stopping (pick w (available_services node1_config initial_state) (Suc (stop_draw_pos initial_state))),
         Subprocess_call (DOCKER_BASE_COMMAND @ [''stop'', pick w (available_services node1_config initial_state) (Suc (stop_draw_pos initial_state))]),
         Print_docker_ps_status, Subprocess_call (DOCKER_BASE_COMMAND @ [''ps''])]\<rparr>"
    by (rule iteration_stop[OF assms(1)])
      (simp_all add: av, simp_all add: initial_state_def node1_config_def lt1)
  then have it1: "iteration node1_config w initial_state = Inr ?s1"
    by (simp add: av pick_single[OF assms(1)] time_sleep_def emit_def)
      (simp add: initial_state_def node1_config_def stop_draw_pos_def)
  have av1: "available_services node1_config ?s1 = {||}"
    by (simp add: available_services_def node1_config_def)
  have "iteration node1_config w ?s1 = time_sleep (sleep_time node1_config)
     \<lparr>stopped_services = stopped_services ?s1,
      print_ps = False,
      rng_pos = (if available_services node1_config ?s1 = {||} then stop_draw_pos ?s1
                 else Suc (stop_draw_pos ?s1)),
      n_calls = (if print_ps ?s1 then Suc (n_calls ?s1) else n_calls ?s1),
      events = events ?s1 @ (if print_ps ?s1
         then [Print_docker_ps_status, Subprocess_call (DOCKER_BASE_COMMAND @ [''ps''])]
         else [Print_Not_doing_anything (sleep_time node1_config)])\<rparr>"
    by (rule iteration_idle) (simp_all add: av1, simp add: node1_config_def ge0)
  then have it2: "iteration node1_config w ?s1 = Inr
      \<lparr>stopped_services = {|''node1''|}, print_ps = False, rng_pos = 3, n_calls = 2,
       events = [Print_Stopping ''node1'',
                 Subprocess_call (DOCKER_BASE_COMMAND @ [''stop'', ''node1'']),
                 Print_docker_ps_status,
                 Subprocess_call (DOCKER_BASE_COMMAND @ [''ps'']),
                 Time_sleep 0,
                 Print_Not_doing_anything 0,
                 Time_sleep 0]\<rparr>"
    by (simp add: av1 time_sleep_def emit_def stop_draw_pos_def)
      (simp add: node1_config_def)
  have m1: "main node1_config w 1 = Inr ?s1"
    by (simp add: main_def it1)
  have m2: "main node1_config w 2 = main_loop node1_config w 1 ?s1"
    by (simp add: main_def numeral_2_eq_2 it1)
  from m1 m2 av1 it2 show ?thesis by simp
qed

theorem node1_example_witness:
  "lists_sets example_world \<and> unit_draws example_world
   \<and> available_services node1_config (state_of (main node1_config example_world 1)) = {||}
   \<and> main node1_config example_world 2 = Inr
      \<lparr>stopped_services = {|''node1''|}, print_ps = False, rng_pos = 3, n_calls = 2,
       events = [Print_Stopping ''node1'',
                 Subprocess_call (DOCKER_BASE_COMMAND @ [''stop'', ''node1'']),
                 Print_docker_ps_status,
                 Subprocess_call (DOCKER_BASE_COMMAND @ [''ps'']),
                 Time_sleep 0,
                 Print_Not_doing_anything 0,
                 Time_sleep 0]\<rparr>"
  using node1_example[OF example_world_lists_sets example_world_unit_draws]
    example_world_lists_sets example_world_unit_draws
  by blast

subsection \<open>The status print\<close>

text \<open>
  Claim C9.  The flag \<^verbatim>\<open>print_ps\<close> is initially true.  The first pass always runs the
  \<^verbatim>\<open>ps\<close> command and never prints the message that it is just sleeping, whether or not
  it starts or stops a service.  After every pass the flag is false, so from the second
  pass on a pass that issues neither a start nor a stop command prints exactly that
  message (and then sleeps).
\<close>

theorem first_pass_prints_status:
  assumes "lists_sets w"
  shows "print_ps initial_state
    \<and> Subprocess_call (DOCKER_BASE_COMMAND @ [''ps'']) \<in> set (events (state_of (main c w 1)))
    \<and> \<not> list_ex is_sleeping_message (events (state_of (main c w 1)))
    \<and> (0 < n \<longrightarrow> \<not> print_ps (state_of (main c w n)))
    \<and> (\<not> print_ps s \<and> starts (state_of (iteration c w s)) = starts s
          \<and> stops (state_of (iteration c w s)) = stops s \<longrightarrow>
        events (state_of (iteration c w s)) =
          events s @ [Print_Not_doing_anything (sleep_time c)]
            @ (if sleep_time c < 0 then [] else [Time_sleep (sleep_time c)]))"
proof -
  have first: "state_of (main c w 1) = state_of (iteration c w initial_state)"
    by (cases "iteration c w initial_state") (simp_all add: main_def)
  have a: "Subprocess_call (DOCKER_BASE_COMMAND @ [''ps''])
             \<in> set (events (state_of (iteration c w initial_state)))
      \<and> \<not> list_ex is_sleeping_message (events (state_of (iteration c w initial_state)))"
    using assms
  proof (cases rule: iteration_cases[where s = initial_state and c = c])
    case (start x)
    then show ?thesis by (simp add: initial_state_def)
  next
    case (stop x)
    then show ?thesis by (simp add: initial_state_def)
  next
    case idle
    then show ?thesis by (simp add: initial_state_def)
  qed
  have b: "0 < n \<longrightarrow> \<not> print_ps (state_of (main c w n))"
  proof (cases n)
    case 0
    then show ?thesis by simp
  next
    case (Suc m)
    with print_ps_cleared_loop[OF assms, of c m initial_state] show ?thesis
      by (simp only: main_def) simp
  qed
  have c: "\<not> print_ps s \<and> starts (state_of (iteration c w s)) = starts s
          \<and> stops (state_of (iteration c w s)) = stops s \<longrightarrow>
        events (state_of (iteration c w s)) =
          events s @ [Print_Not_doing_anything (sleep_time c)]
            @ (if sleep_time c < 0 then [] else [Time_sleep (sleep_time c)])"
    using assms
  proof (cases rule: iteration_cases[where s = s and c = c])
    case (start x)
    then show ?thesis by (simp add: starts_def)
  next
    case (stop x)
    then show ?thesis by (simp add: stops_def)
  next
    case idle
    then show ?thesis by simp
  qed
  from a b c first show ?thesis by (simp add: initial_state_def)
qed

theorem first_pass_prints_status_witness:
  "lists_sets example_world
   \<and> Subprocess_call (DOCKER_BASE_COMMAND @ [''ps''])
        \<in> set (events (state_of (main node1_config example_world 1)))
   \<and> (0::nat) < 1 \<and> \<not> print_ps (state_of (main node1_config example_world 1))
   \<and> starts (state_of (iteration node1_config example_world
          (state_of (main node1_config example_world 1))))
        = starts (state_of (main node1_config example_world 1))
   \<and> stops (state_of (iteration node1_config example_world
          (state_of (main node1_config example_world 1))))
        = stops (state_of (main node1_config example_world 1))
   \<and> events (state_of (iteration node1_config example_world
          (state_of (main node1_config example_world 1))))
        = events (state_of (main node1_config example_world 1))
          @ [Print_Not_doing_anything (sleep_time node1_config)]
          @ (if sleep_time node1_config < 0 then [] else [Time_sleep (sleep_time node1_config)])"
proof -
  have h: "lists_sets example_world" by (fact example_world_lists_sets)
  have a1: "starts (state_of (iteration node1_config example_world
          (state_of (main node1_config example_world 1))))
        = starts (state_of (main node1_config example_world 1))"
    by code_simp
  have a2: "stops (state_of (iteration node1_config example_world
          (state_of (main node1_config example_world 1))))
        = stops (state_of (main node1_config example_world 1))"
    by code_simp
  from first_pass_prints_status[OF h, where c = node1_config and n = 1
      and s = "state_of (main node1_config example_world 1)"] h a1 a2
  show ?thesis by simp
qed

subsection \<open>The command line\<close>

lemma str_split_nonempty: "str_split sep s \<noteq> []"
  by (induction s) (simp_all add: Let_def)

lemma str_join_cons: "str_join sep ((x # p) # ps) = x # str_join sep (p # ps)"
  by (cases ps) simp_all

lemma str_join_split: "str_join sep (str_split sep s) = s"
proof (induction s)
  case Nil
  show ?case by simp
next
  case (Cons x xs)
  obtain p ps where ps: "str_split sep xs = p # ps"
    using str_split_nonempty[of sep xs] by (cases "str_split sep xs") auto
  with Cons show ?case by (simp add: Let_def str_join_cons)
qed

lemma str_split_no_sep: "p \<in> set (str_split sep s) \<Longrightarrow> sep \<notin> set p"
proof (induction s arbitrary: p)
  case Nil
  then show ?case by simp
next
  case (Cons x xs)
  obtain q qs where qs: "str_split sep xs = q # qs"
    using str_split_nonempty[of sep xs] by (cases "str_split sep xs") auto
  have "sep \<notin> set r" if "r \<in> set (q # qs)" for r
    using Cons.IH[of r] that qs by simp
  with Cons.prems qs show ?case
    by (auto simp: Let_def split: if_splits)
qed

lemma str_strip_decompose:
  "x = takeWhile isspace x @ str_strip x @ rev (takeWhile isspace (rev (dropWhile isspace x)))"
proof -
  let ?y = "dropWhile isspace x"
  have "rev (takeWhile isspace (rev ?y) @ dropWhile isspace (rev ?y)) = rev (rev ?y)"
    by (simp only: takeWhile_dropWhile_id)
  then have "?y = str_strip x @ rev (takeWhile isspace (rev ?y))"
    by (simp only: rev_append rev_rev_ident str_strip_def)
  moreover have "x = takeWhile isspace x @ ?y" by simp
  ultimately show ?thesis by simp
qed

lemma str_strip_ends:
  assumes "str_strip x \<noteq> []"
  shows "\<not> isspace (hd (str_strip x))" and "\<not> isspace (last (str_strip x))"
proof -
  let ?y = "dropWhile isspace x"
  let ?z = "dropWhile isspace (rev ?y)"
  from assms have z: "?z \<noteq> []" by (simp add: str_strip_def)
  have y: "?y \<noteq> []"
  proof
    assume "?y = []"
    then have "?z = []" by (simp only: rev.simps dropWhile.simps)
    with z show False by (rule notE)
  qed
  have "last (str_strip x) = hd ?z" using z by (simp add: str_strip_def last_rev)
  then show "\<not> isspace (last (str_strip x))" using hd_dropWhile[OF z] by simp
  have "?y = str_strip x @ rev (takeWhile isspace (rev ?y))"
    using str_strip_decompose[of x] by (metis same_append_eq takeWhile_dropWhile_id)
  then have "hd ?y = hd (str_strip x)" using assms by (metis hd_append2)
  then show "\<not> isspace (hd (str_strip x))" using hd_dropWhile[OF y] by simp
qed

text \<open>
  Claim C8.  The set \<^verbatim>\<open>ALL_SERVICES\<close> is node1, node2, node3.  Without any option the
  parsed arguments are: services \<^verbatim>\<open>ALL_SERVICES\<close>, stopping chance 0.1, starting chance 0.3,
  sleep time 5.  On every command line that parses, each absent option has that default,
  whatever the other options are, and \<^verbatim>\<open>main\<close> runs with the parsed arguments.
\<close>

theorem command_line_defaults:
  "ALL_SERVICES = {|''node1'', ''node2'', ''node3''|}
   \<and> parse_args float no_options =
        Some \<lparr>services = {|''node1'', ''node2'', ''node3''|}, stopping_chance = 1 / 10,
              starting_chance = 3 / 10, sleep_time = 5\<rparr>
   \<and> script float no_options w n =
        Some (main \<lparr>services = {|''node1'', ''node2'', ''node3''|}, stopping_chance = 1 / 10,
                    starting_chance = 3 / 10, sleep_time = 5\<rparr> w n)
   \<and> (parse_args float cl = Some c \<longrightarrow>
         (opt_services cl = None \<longrightarrow> services c = {|''node1'', ''node2'', ''node3''|})
       \<and> (opt_stopping_chance cl = None \<longrightarrow> stopping_chance c = 1 / 10)
       \<and> (opt_starting_chance cl = None \<longrightarrow> starting_chance c = 3 / 10)
       \<and> (opt_sleep_time cl = None \<longrightarrow> sleep_time c = 5)
       \<and> script float cl w n = Some (main c w n))"
proof -
  have a: "parse_args float no_options =
        Some \<lparr>services = {|''node1'', ''node2'', ''node3''|}, stopping_chance = 1 / 10,
              starting_chance = 3 / 10, sleep_time = 5\<rparr>"
    by (simp add: parse_args_def no_options_def ALL_SERVICES_def)
  have b: "(opt_services cl = None \<longrightarrow> services c = {|''node1'', ''node2'', ''node3''|})
       \<and> (opt_stopping_chance cl = None \<longrightarrow> stopping_chance c = 1 / 10)
       \<and> (opt_starting_chance cl = None \<longrightarrow> starting_chance c = 3 / 10)
       \<and> (opt_sleep_time cl = None \<longrightarrow> sleep_time c = 5)
       \<and> script float cl w n = Some (main c w n)"
    if "parse_args float cl = Some c"
    using that
    by (auto simp: parse_args_def script_def ALL_SERVICES_def split: option.splits)
  from a b show ?thesis by (simp add: script_def ALL_SERVICES_def)
qed

theorem command_line_defaults_witness:
  "parse_args (\<lambda>v. if v = ''0.5'' then Some (1 / 2) else None)
      (no_options\<lparr>opt_stopping_chance := Some ''0.5''\<rparr>)
     = Some \<lparr>services = {|''node1'', ''node2'', ''node3''|}, stopping_chance = 1 / 2,
             starting_chance = 3 / 10, sleep_time = 5\<rparr>
   \<and> opt_services (no_options\<lparr>opt_stopping_chance := Some ''0.5''\<rparr>) = None
   \<and> opt_starting_chance (no_options\<lparr>opt_stopping_chance := Some ''0.5''\<rparr>) = None
   \<and> opt_sleep_time (no_options\<lparr>opt_stopping_chance := Some ''0.5''\<rparr>) = None
   \<and> opt_stopping_chance no_options = None
   \<and> stopping_chance \<lparr>services = {|''node1'', ''node2'', ''node3''|}, stopping_chance = 1 / 10,
             starting_chance = 3 / 10, sleep_time = 5\<rparr> = 1 / 10
   \<and> script (\<lambda>v. if v = ''0.5'' then Some (1 / 2) else None)
        (no_options\<lparr>opt_stopping_chance := Some ''0.5''\<rparr>) example_world 2
     = Some (main \<lparr>services = {|''node1'', ''node2'', ''node3''|}, stopping_chance = 1 / 2,
             starting_chance = 3 / 10, sleep_time = 5\<rparr> example_world 2)"
proof -
  let ?f = "\<lambda>v. if v = ''0.5'' then Some (1 / 2 :: real) else None"
  let ?cl = "no_options\<lparr>opt_stopping_chance := Some ''0.5''\<rparr>"
  let ?c = "\<lparr>services = {|''node1'', ''node2'', ''node3''|}, stopping_chance = 1 / 2,
             starting_chance = 3 / 10, sleep_time = 5 :: real\<rparr>"
  have p: "parse_args ?f ?cl = Some ?c"
    by (simp add: parse_args_def no_options_def ALL_SERVICES_def)
  have o: "opt_services ?cl = None" "opt_starting_chance ?cl = None" "opt_sleep_time ?cl = None"
    "opt_stopping_chance no_options = None"
    by (simp_all add: no_options_def)
  from command_line_defaults[of ?f example_world 2 ?cl ?c] p o
  show ?thesis by simp
qed

text \<open>
  Claim C10.  The conversion of \<^verbatim>\<open>--services\<close> splits its argument at the commas (joining
  the pieces with commas gives the argument back, and no piece has a comma), strips each
  piece (a piece is its stripped form between two runs of whitespace, and the stripped
  form neither begins nor ends with whitespace), and returns the set of the stripped
  pieces, in which equal names are one element.  That set is never empty; for the empty
  argument it is the set whose only element is the empty name.
\<close>

theorem services_type_parses:
  "str_join (CHR '','') (str_split (CHR '','') s) = s
   \<and> (\<forall>p \<in> set (str_split (CHR '','') s). CHR '','' \<notin> set p)
   \<and> (\<forall>p. \<exists>a b. p = a @ str_strip p @ b \<and> list_all isspace a \<and> list_all isspace b
        \<and> (str_strip p \<noteq> [] \<longrightarrow>
              \<not> isspace (hd (str_strip p)) \<and> \<not> isspace (last (str_strip p))))
   \<and> fset (services_type s) = str_strip ` set (str_split (CHR '','') s)
   \<and> services_type s \<noteq> {||}
   \<and> services_type [] = {|[]|}"
proof -
  have strip: "\<exists>a b. p = a @ str_strip p @ b \<and> list_all isspace a \<and> list_all isspace b
        \<and> (str_strip p \<noteq> [] \<longrightarrow>
              \<not> isspace (hd (str_strip p)) \<and> \<not> isspace (last (str_strip p)))" for p
  proof (intro exI conjI)
    show "p = takeWhile isspace p @ str_strip p
        @ rev (takeWhile isspace (rev (dropWhile isspace p)))"
      by (rule str_strip_decompose)
    show "list_all isspace (takeWhile isspace p)"
      by (simp add: list_all_iff) (meson set_takeWhileD)
    show "list_all isspace (rev (takeWhile isspace (rev (dropWhile isspace p))))"
      by (simp add: list_all_iff) (meson set_takeWhileD)
    show "str_strip p \<noteq> [] \<longrightarrow>
        \<not> isspace (hd (str_strip p)) \<and> \<not> isspace (last (str_strip p))"
      using str_strip_ends[of p] by blast
  qed
  have img: "fset (services_type s) = str_strip ` set (str_split (CHR '','') s)"
    by (simp add: services_type_def fset_of_list.rep_eq)
  have ne: "services_type s \<noteq> {||}"
  proof
    assume "services_type s = {||}"
    then have "fset (services_type s) = {}" by simp
    with img have "str_split (CHR '','') s = []" by simp
    with str_split_nonempty show False by blast
  qed
  have emp: "services_type [] = {|[]|}"
    by (simp add: services_type_def str_strip_def)
  from str_join_split[of "CHR '',''" s] str_split_no_sep[of _ "CHR '',''" s] strip img ne emp
  show ?thesis by blast
qed

theorem services_type_parses_witness:
  "'' node1 '' \<in> set (str_split (CHR '','') ''node1, node1 ,node2'')
   \<and> CHR '','' \<notin> set '' node1 ''
   \<and> str_strip '' node1 '' = ''node1''
   \<and> \<not> isspace (hd (str_strip '' node1 '')) \<and> \<not> isspace (last (str_strip '' node1 ''))
   \<and> str_split (CHR '','') ''node1, node1 ,node2'' = [''node1'', '' node1 '', ''node2'']
   \<and> services_type ''node1, node1 ,node2'' = {|''node1'', ''node2''|}
   \<and> services_type ''node1, node1 ,node2'' \<noteq> {||}"
proof -
  have sp: "str_split (CHR '','') ''node1, node1 ,node2'' = [''node1'', '' node1 '', ''node2'']"
    by code_simp
  have st: "str_strip '' node1 '' = ''node1''" by code_simp
  have sv: "services_type ''node1, node1 ,node2'' = {|''node1'', ''node2''|}" by code_simp
  have mem: "'' node1 '' \<in> set (str_split (CHR '','') ''node1, node1 ,node2'')"
    by (simp only: sp) simp
  have ne: "str_strip '' node1 '' \<noteq> []" by (simp only: st) simp
  note t = services_type_parses[of "''node1, node1 ,node2''"]
  from t mem have a: "CHR '','' \<notin> set '' node1 ''" by blast
  from t have "\<exists>a b. '' node1 '' = a @ str_strip '' node1 '' @ b \<and> list_all isspace a
        \<and> list_all isspace b
        \<and> (str_strip '' node1 '' \<noteq> [] \<longrightarrow>
              \<not> isspace (hd (str_strip '' node1 ''))
              \<and> \<not> isspace (last (str_strip '' node1 '')))"
    by blast
  with ne have b: "\<not> isspace (hd (str_strip '' node1 ''))
      \<and> \<not> isspace (last (str_strip '' node1 ''))" by blast
  from t have c: "services_type ''node1, node1 ,node2'' \<noteq> {||}" by blast
  from mem a st b sp sv c show ?thesis by blast
qed

end
